theory Spec2Isabelle
  imports Complex_Main "HOL-Library.Char_ord" "HOL-Library.List_Lexorder" "HOL-Library.Sublist"
begin

section \<open>Cells, columns and tables\<close>

text \<open>
  The dashboard \<^verbatim>\<open>app.py\<close> is a straight-line script over pandas data frames.
  A frame is modelled column by column, as the script addresses it: an ordered list
  of named columns, each a list of cells. A cell is a missing value (pandas' NaN,
  \<open>None\<close> here) or a value: a number, a text or a boolean.

  Numbers are real numbers: the rounding and the range of pandas' 64-bit numbers,
  and the infinities, are outside this model. Column dtypes are not modelled
  either: each cell behaves as the element of an object column does. The row index
  is positional.
\<close>

datatype val = Num real | Str string | Bool bool

type_synonym cell = "val option"
type_synonym series = "cell list"
type_synonym table = "(string \<times> series) list"

datatype error = KeyError string | TypeError | FileNotFoundError | ParserError

definition and_then :: "error + 'a \<Rightarrow> ('a \<Rightarrow> error + 'b) \<Rightarrow> error + 'b" where
  "and_then m f = (case m of Inl e \<Rightarrow> Inl e | Inr x \<Rightarrow> f x)"

fun sequence :: "(error + 'a) list \<Rightarrow> error + 'a list" where
  "sequence [] = Inr []"
| "sequence (m # ms) = and_then m (\<lambda>x. and_then (sequence ms) (\<lambda>xs. Inr (x # xs)))"

text \<open>\<^verbatim>\<open>df[c]\<close>: the column named \<open>c\<close>, or KeyError.\<close>

definition getitem :: "table \<Rightarrow> string \<Rightarrow> error + series" where
  "getitem t c = (case map_of t c of None \<Rightarrow> Inl (KeyError c) | Some col \<Rightarrow> Inr col)"

text \<open>\<^verbatim>\<open>df[c] = col\<close>: replaces the column named \<open>c\<close> where it stands, or appends
  a new column after the existing ones.\<close>

fun setitem :: "table \<Rightarrow> string \<Rightarrow> series \<Rightarrow> table" where
  "setitem [] c col = [(c, col)]"
| "setitem ((k, old) # t) c col =
     (if k = c then (c, col) # t else (k, old) # setitem t c col)"

text \<open>\<^verbatim>\<open>df[mask]\<close> with a boolean mask: every column keeps the positions where the
  mask is true.\<close>

definition take_rows :: "bool list \<Rightarrow> 'a list \<Rightarrow> 'a list" where
  "take_rows keep xs = map snd (filter fst (zip keep xs))"

definition getitem_mask :: "table \<Rightarrow> bool list \<Rightarrow> table" where
  "getitem_mask t keep = map (\<lambda>(c, col). (c, take_rows keep col)) t"

definition nrows :: "table \<Rightarrow> nat" where
  "nrows t = (case t of [] \<Rightarrow> 0 | (c, col) # _ \<Rightarrow> length col)"

definition column_names :: "table \<Rightarrow> string list" where
  "column_names t = map fst t"

text \<open>A frame has distinct column names and columns of one length.\<close>

definition wf_table :: "table \<Rightarrow> bool" where
  "wf_table t = (distinct (column_names t) \<and> list_all (\<lambda>(c, col). length col = nrows t) t)"

text \<open>The rows of a frame, read across its columns.\<close>

definition row_at :: "table \<Rightarrow> nat \<Rightarrow> cell list" where
  "row_at t i = map (\<lambda>(c, col). col ! i) t"

definition rows_of :: "table \<Rightarrow> cell list list" where
  "rows_of t = map (row_at t) [0..<nrows t]"

section \<open>Element-wise operations\<close>

text \<open>Python's \<open>==\<close> between two values; a boolean equals the number 0 or 1.\<close>

fun py_eq :: "val \<Rightarrow> val \<Rightarrow> bool" where
  "py_eq (Num x) (Num y) = (x = y)"
| "py_eq (Str s) (Str u) = (s = u)"
| "py_eq (Bool a) (Bool b) = (a = b)"
| "py_eq (Bool a) (Num y) = (of_bool a = y)"
| "py_eq (Num x) (Bool b) = (x = of_bool b)"
| "py_eq _ _ = False"

text \<open>\<^verbatim>\<open>col == sel\<close>: a missing cell equals nothing, and nothing equals a missing
  selection (\<^verbatim>\<open>None\<close>, what an empty select box returns).\<close>

definition eq_cell :: "cell \<Rightarrow> cell \<Rightarrow> bool" where
  "eq_cell c sel = (case c of None \<Rightarrow> False
                    | Some v \<Rightarrow> (case sel of None \<Rightarrow> False | Some w \<Rightarrow> py_eq v w))"

definition eq_scalar :: "series \<Rightarrow> cell \<Rightarrow> bool list" where
  "eq_scalar col sel = map (\<lambda>c. eq_cell c sel) col"

text \<open>\<^verbatim>\<open>pd.to_numeric(col, errors="coerce")\<close>. The parser of numeric texts belongs to
  pandas and is a parameter: it returns \<open>None\<close> for a text that is not a number.\<close>

fun to_numeric_cell :: "(string \<Rightarrow> real option) \<Rightarrow> cell \<Rightarrow> cell" where
  "to_numeric_cell parse None = None"
| "to_numeric_cell parse (Some (Num x)) = Some (Num x)"
| "to_numeric_cell parse (Some (Bool b)) = Some (Num (of_bool b))"
| "to_numeric_cell parse (Some (Str s)) = map_option Num (parse s)"

definition to_numeric :: "(string \<Rightarrow> real option) \<Rightarrow> series \<Rightarrow> series" where
  "to_numeric parse col = map (to_numeric_cell parse) col"

text \<open>\<^verbatim>\<open>col.fillna(x)\<close>.\<close>

definition fillna :: "real \<Rightarrow> series \<Rightarrow> series" where
  "fillna x col = map (\<lambda>c. case c of None \<Rightarrow> Some (Num x) | Some v \<Rightarrow> Some v) col"

text \<open>Subtraction, absolute value and \<open>>\<close>: a text operand raises TypeError, a missing
  operand gives a missing result, and a missing value is greater than nothing.\<close>

fun sub_cell :: "cell \<Rightarrow> cell \<Rightarrow> error + cell" where
  "sub_cell (Some (Str s)) _ = Inl TypeError"
| "sub_cell _ (Some (Str s)) = Inl TypeError"
| "sub_cell None _ = Inr None"
| "sub_cell _ None = Inr None"
| "sub_cell (Some (Num x)) (Some (Num y)) = Inr (Some (Num (x - y)))"
| "sub_cell (Some (Num x)) (Some (Bool b)) = Inr (Some (Num (x - of_bool b)))"
| "sub_cell (Some (Bool a)) (Some (Num y)) = Inr (Some (Num (of_bool a - y)))"
| "sub_cell (Some (Bool a)) (Some (Bool b)) = Inr (Some (Num (of_bool a - of_bool b)))"

fun abs_cell :: "cell \<Rightarrow> error + cell" where
  "abs_cell None = Inr None"
| "abs_cell (Some (Num x)) = Inr (Some (Num \<bar>x\<bar>))"
| "abs_cell (Some (Bool b)) = Inr (Some (Num (of_bool b)))"
| "abs_cell (Some (Str s)) = Inl TypeError"

fun gt_cell :: "real \<Rightarrow> cell \<Rightarrow> error + cell" where
  "gt_cell thr None = Inr (Some (Bool False))"
| "gt_cell thr (Some (Num x)) = Inr (Some (Bool (x > thr)))"
| "gt_cell thr (Some (Bool b)) = Inr (Some (Bool (of_bool b > thr)))"
| "gt_cell thr (Some (Str s)) = Inl TypeError"

definition sub_series :: "series \<Rightarrow> series \<Rightarrow> error + series" where
  "sub_series xs ys = sequence (map (\<lambda>(x, y). sub_cell x y) (zip xs ys))"

definition abs_series :: "series \<Rightarrow> error + series" where
  "abs_series xs = sequence (map abs_cell xs)"

definition gt_scalar :: "series \<Rightarrow> real \<Rightarrow> error + series" where
  "gt_scalar xs thr = sequence (map (gt_cell thr) xs)"

section \<open>The sidebar: options and filters (lines 21 to 45)\<close>

text \<open>\<^verbatim>\<open>col.dropna()\<close>, \<^verbatim>\<open>.unique()\<close> (first occurrences, in order of appearance) and
  Python's \<^verbatim>\<open>sorted\<close>, which raises TypeError when it has to compare a text with a
  number.\<close>

fun dropna :: "series \<Rightarrow> val list" where
  "dropna [] = []"
| "dropna (None # cs) = dropna cs"
| "dropna (Some v # cs) = v # dropna cs"

fun unique :: "val list \<Rightarrow> val list" where
  "unique [] = []"
| "unique (v # vs) = v # unique (filter (\<lambda>w. \<not> py_eq v w) vs)"

fun is_str :: "val \<Rightarrow> bool" where
  "is_str (Str s) = True"
| "is_str _ = False"

fun num_key :: "val \<Rightarrow> real" where
  "num_key (Num x) = x"
| "num_key (Bool b) = of_bool b"
| "num_key (Str s) = 0"

fun str_key :: "val \<Rightarrow> string" where
  "str_key (Str s) = s"
| "str_key _ = []"

definition sorted_py :: "val list \<Rightarrow> error + val list" where
  "sorted_py vs =
     (if list_all (\<lambda>v. \<not> is_str v) vs then Inr (sort_key num_key vs)
      else if list_all is_str vs then Inr (sort_key str_key vs)
      else Inl TypeError)"

text \<open>The options of a select box over column \<open>c\<close>:
  \<^verbatim>\<open>sorted(df[c].dropna().unique())\<close>.\<close>

definition options :: "table \<Rightarrow> string \<Rightarrow> error + val list" where
  "options t c = and_then (getitem t c) (\<lambda>col. sorted_py (unique (dropna col)))"

text \<open>\<^verbatim>\<open>st.sidebar.selectbox\<close>: the user picks a position of the options; with no option
  to pick, the widget returns \<^verbatim>\<open>None\<close>.\<close>

definition selectbox :: "val list \<Rightarrow> nat \<Rightarrow> cell" where
  "selectbox opts pick = (if pick < length opts then Some (opts ! pick) else None)"

text \<open>\<^verbatim>\<open>df[df[c] == sel]\<close>.\<close>

definition filter_eq :: "table \<Rightarrow> string \<Rightarrow> cell \<Rightarrow> error + table" where
  "filter_eq t c sel = and_then (getitem t c) (\<lambda>col. Inr (getitem_mask t (eq_scalar col sel)))"

text \<open>What the user sets in the sidebar.\<close>

record controls =
  month_pick :: nat
  filter_by_day :: bool
  day_pick :: nat
  filter_by_hour :: bool
  hour_pick :: nat
  threshold :: real

text \<open>The script's variables after line 42, with the options each select box
  offered (\<open>None\<close> for a select box that is not shown).\<close>

record view =
  month_options :: "val list"
  month :: cell
  day_options :: "val list option"
  day_of_week :: cell
  hour_options :: "val list option"
  hour :: cell
  filtered_data :: table

definition sidebar :: "controls \<Rightarrow> table \<Rightarrow> error + view" where
  "sidebar ui data =
     and_then (options data ''month'') (\<lambda>mo.
     let m = selectbox mo (month_pick ui) in
     and_then (filter_eq data ''month'' m) (\<lambda>fd1.
     and_then
       (if filter_by_day ui then
          and_then (options fd1 ''day_of_week'') (\<lambda>dopts.
          let d = selectbox dopts (day_pick ui) in
          and_then (filter_eq fd1 ''day_of_week'' d) (\<lambda>fd2. Inr (Some dopts, d, fd2)))
        else Inr (None, None, fd1)) (\<lambda>(dopts, d, fd2).
     and_then
       (if filter_by_hour ui then
          and_then (options fd2 ''hour'') (\<lambda>hopts.
          let h = selectbox hopts (hour_pick ui) in
          and_then (filter_eq fd2 ''hour'' h) (\<lambda>fd3. Inr (Some hopts, h, fd3)))
        else Inr (None, None, fd2)) (\<lambda>(hopts, h, fd3).
     Inr \<lparr>month_options = mo, month = m, day_options = dopts, day_of_week = d,
          hour_options = hopts, hour = h, filtered_data = fd3\<rparr>))))"

text \<open>The contract of the filter chain with the selected values given: month always,
  day of week and hour when given.\<close>

definition applyFilters :: "table \<Rightarrow> cell \<Rightarrow> cell option \<Rightarrow> cell option \<Rightarrow> error + table" where
  "applyFilters t m d h =
     and_then (filter_eq t ''month'' m) (\<lambda>fd1.
     and_then (case d of None \<Rightarrow> Inr fd1 | Some dv \<Rightarrow> filter_eq fd1 ''day_of_week'' dv) (\<lambda>fd2.
     (case h of None \<Rightarrow> Inr fd2 | Some hv \<Rightarrow> filter_eq fd2 ''hour'' hv)))"

section \<open>The anomaly derivation (lines 51 to 143)\<close>

text \<open>Lines 52 to 57, and again lines 87 to 92: both columns through
  \<^verbatim>\<open>to_numeric\<close>, then \<^verbatim>\<open>fillna(0, inplace=True)\<close> on each (taken to write through to
  the frame, as it does in pandas without copy-on-write).\<close>

definition coerce_numeric :: "(string \<Rightarrow> real option) \<Rightarrow> table \<Rightarrow> error + table" where
  "coerce_numeric parse fd0 =
     and_then (getitem fd0 ''truth'') (\<lambda>truth.
     let fd1 = setitem fd0 ''truth'' (to_numeric parse truth) in
     and_then (getitem fd1 ''predictions'') (\<lambda>preds.
     let fd2 = setitem fd1 ''predictions'' (to_numeric parse preds) in
     and_then (getitem fd2 ''truth'') (\<lambda>truth.
     let fd3 = setitem fd2 ''truth'' (fillna 0 truth) in
     and_then (getitem fd3 ''predictions'') (\<lambda>preds.
     Inr (setitem fd3 ''predictions'' (fillna 0 preds))))))"

text \<open>\<^verbatim>\<open>abs(fd["truth"] - fd["predictions"])\<close>.\<close>

definition abs_diff :: "table \<Rightarrow> error + series" where
  "abs_diff fd =
     and_then (getitem fd ''truth'') (\<lambda>truth.
     and_then (getitem fd ''predictions'') (\<lambda>preds.
     and_then (sub_series truth preds) abs_series))"

text \<open>Lines 60 and 95: \<^verbatim>\<open>fd["anomaly"] = abs(fd["truth"] - fd["predictions"]) > threshold\<close>.\<close>

definition flag_anomalies :: "real \<Rightarrow> table \<Rightarrow> error + table" where
  "flag_anomalies thr fd =
     and_then (abs_diff fd) (\<lambda>score.
     and_then (gt_scalar score thr) (\<lambda>flags.
     Inr (setitem fd ''anomaly'' flags)))"

text \<open>The coercion and flagging pass, which the script runs at lines 52 to 60 and
  again at lines 87 to 95.\<close>

definition pass :: "(string \<Rightarrow> real option) \<Rightarrow> real \<Rightarrow> table \<Rightarrow> error + table" where
  "pass parse thr fd = and_then (coerce_numeric parse fd) (flag_anomalies thr)"

text \<open>Lines 140 and 143: the score column, then the flag from the score column.\<close>

definition score_anomalies :: "real \<Rightarrow> table \<Rightarrow> error + table" where
  "score_anomalies thr fd =
     and_then (abs_diff fd) (\<lambda>score.
     let fd1 = setitem fd ''anomaly_score'' score in
     and_then (getitem fd1 ''anomaly_score'') (\<lambda>score.
     and_then (gt_scalar score thr) (\<lambda>flags.
     Inr (setitem fd1 ''anomaly'' flags))))"

text \<open>Line 97: \<^verbatim>\<open>anomalies = fd[fd["anomaly"]]\<close>.\<close>

definition select_anomalies :: "table \<Rightarrow> error + table" where
  "select_anomalies fd =
     and_then (getitem fd ''anomaly'') (\<lambda>flags.
     Inr (getitem_mask fd (map (\<lambda>c. c = Some (Bool True)) flags)))"

text \<open>The derivation in the order of the script; the result is the final
  \<^verbatim>\<open>filtered_data\<close> and the frame \<^verbatim>\<open>anomalies\<close>. The calls that draw the map, the
  charts and the tables stand between these statements and are not modelled.\<close>

definition derive :: "(string \<Rightarrow> real option) \<Rightarrow> real \<Rightarrow> table \<Rightarrow> error + table \<times> table" where
  "derive parse thr fd0 =
     and_then (pass parse thr fd0) (\<lambda>fd1.
     and_then (pass parse thr fd1) (\<lambda>fd2.
     and_then (select_anomalies fd2) (\<lambda>anomalies.
     and_then (score_anomalies thr fd2) (\<lambda>fd3.
     Inr (fd3, anomalies)))))"

section \<open>Loading, and the whole script\<close>

text \<open>Lines 7 to 11: \<^verbatim>\<open>load_data\<close> returns what \<^verbatim>\<open>pd.read_csv\<close> returns for the fixed
  path, and raises what it raises. The reader belongs to pandas and is a parameter.\<close>

definition data_path :: string where
  "data_path = ''data/processed/node_features_with_predictions.csv''"

definition load_data :: "(string \<Rightarrow> error + table) \<Rightarrow> error + table" where
  "load_data read_csv = read_csv data_path"

record session =
  data :: table
  selection :: view
  anomalies :: table

definition app ::
  "(string \<Rightarrow> error + table) \<Rightarrow> (string \<Rightarrow> real option) \<Rightarrow> controls \<Rightarrow> error + session" where
  "app read_csv parse ui =
     and_then (load_data read_csv) (\<lambda>base.
     and_then (sidebar ui base) (\<lambda>v.
     and_then (derive parse (threshold ui) (filtered_data v)) (\<lambda>(fd, an).
     Inr \<lparr>data = base, selection = v\<lparr>filtered_data := fd\<rparr>, anomalies = an\<rparr>)))"

section \<open>Vocabulary of the properties\<close>

text \<open>The number a cell of \<^verbatim>\<open>truth\<close> or \<^verbatim>\<open>predictions\<close> stands for after
  \<^verbatim>\<open>to_numeric\<close> and \<^verbatim>\<open>fillna(0)\<close>, the column after both steps, the scores of two
  columns row by row, and the flags of a list of scores.\<close>

definition num_of_cell :: "(string \<Rightarrow> real option) \<Rightarrow> cell \<Rightarrow> real" where
  "num_of_cell parse c = (case to_numeric_cell parse c of Some (Num x) \<Rightarrow> x | _ \<Rightarrow> 0)"

definition coerced :: "(string \<Rightarrow> real option) \<Rightarrow> series \<Rightarrow> series" where
  "coerced parse col = map (\<lambda>c. Some (Num (num_of_cell parse c))) col"

definition scores :: "(string \<Rightarrow> real option) \<Rightarrow> series \<Rightarrow> series \<Rightarrow> real list" where
  "scores parse ts ps = map (\<lambda>(t, p). \<bar>num_of_cell parse t - num_of_cell parse p\<bar>) (zip ts ps)"

definition flags :: "real \<Rightarrow> real list \<Rightarrow> series" where
  "flags thr xs = map (\<lambda>x. Some (Bool (x > thr))) xs"


text \<open>The options of a select box against the column they are computed from: no
  option twice, every option a value of the column, and every value of the column
  equal (as Python compares) to an option.\<close>

definition offered :: "val list \<Rightarrow> series \<Rightarrow> bool" where
  "offered opts col =
     (distinct opts \<and> list_all (\<lambda>v. Some v \<in> set col) opts
      \<and> list_all (\<lambda>c. case c of None \<Rightarrow> True | Some v \<Rightarrow> list_ex (py_eq v) opts) col)"

text \<open>A column whose values \<^verbatim>\<open>sorted\<close> can compare: all texts, or no text.\<close>

definition comparable :: "series \<Rightarrow> bool" where
  "comparable col = (list_all is_str (dropna col) \<or> list_all (\<lambda>v. \<not> is_str v) (dropna col))"

text \<open>The cell of column \<open>c\<close> in row \<open>i\<close>, and whether row \<open>i\<close> passes the month
  filter and the day-of-week and hour filters that are active.\<close>

definition cell_at :: "table \<Rightarrow> string \<Rightarrow> nat \<Rightarrow> cell" where
  "cell_at t c i = (case map_of t c of None \<Rightarrow> None | Some col \<Rightarrow> col ! i)"

definition matches :: "table \<Rightarrow> cell \<Rightarrow> cell option \<Rightarrow> cell option \<Rightarrow> nat \<Rightarrow> bool" where
  "matches t m d h i =
     (eq_cell (cell_at t ''month'' i) m
      \<and> (case d of None \<Rightarrow> True | Some dv \<Rightarrow> eq_cell (cell_at t ''day_of_week'' i) dv)
      \<and> (case h of None \<Rightarrow> True | Some hv \<Rightarrow> eq_cell (cell_at t ''hour'' i) hv))"

text \<open>A small frame for the examples: four readings, with a missing month, a missing
  hour, and texts and a missing value among truth and predictions.\<close>

definition demo :: table where
  "demo =
    [(''month'', [Some (Num 6), Some (Num 6), None, Some (Num 7)]),
     (''day_of_week'', [Some (Str ''Mon''), Some (Str ''Tue''), Some (Str ''Mon''), Some (Str ''Mon'')]),
     (''hour'', [Some (Num 8), Some (Num 8), Some (Num 9), None]),
     (''truth'', [Some (Num 5), Some (Str ''n/a''), None, Some (Num 1)]),
     (''predictions'', [Some (Num 2), Some (Num 4), Some (Num 3), Some (Str ''x'')])]"

definition demo_controls :: controls where
  "demo_controls =
    \<lparr>month_pick = 0, filter_by_day = True, day_pick = 0, filter_by_hour = True,
     hour_pick = 0, threshold = 2\<rparr>"

section \<open>Facts about frames and the element-wise operations\<close>

lemma and_then_Inr [simp]: "and_then (Inr x) f = f x"
  by (simp add: and_then_def)

lemma and_then_Inl [simp]: "and_then (Inl e) f = Inl e"
  by (simp add: and_then_def)

lemma getitem_setitem_same: "getitem (setitem t c col) c = Inr col"
  by (induction t c col rule: setitem.induct) (auto simp: getitem_def)

lemma getitem_setitem_other: "c \<noteq> d \<Longrightarrow> getitem (setitem t c col) d = getitem t d"
  by (induction t c col rule: setitem.induct) (auto simp: getitem_def)

lemma setitem_same_value: "getitem t c = Inr col \<Longrightarrow> setitem t c col = t"
  by (induction t c col rule: setitem.induct) (auto simp: getitem_def split: option.splits if_splits)

lemma setitem_twice: "setitem (setitem t c a) c b = setitem t c b"
  by (induction t c a rule: setitem.induct) auto

lemma setitem_again: "c \<noteq> d \<Longrightarrow> setitem (setitem (setitem t c a) d b) c a' = setitem (setitem t c a') d b"
  by (induction t) (auto simp: setitem_twice)

lemma column_names_setitem_present:
  "c \<in> set (column_names t) \<Longrightarrow> column_names (setitem t c col) = column_names t"
  by (induction t c col rule: setitem.induct) (auto simp: column_names_def)

lemma column_names_setitem_new:
  "c \<notin> set (column_names t) \<Longrightarrow> column_names (setitem t c col) = column_names t @ [c]"
  by (induction t c col rule: setitem.induct) (auto simp: column_names_def)

lemma getitem_Inr_iff: "(\<exists>col. getitem t c = Inr col) \<longleftrightarrow> c \<in> set (column_names t)"
  by (auto simp: getitem_def column_names_def map_of_eq_None_iff split: option.splits)
   (metis map_of_eq_None_iff not_Some_eq)

lemma getitem_Inl_iff: "getitem t c = Inl e \<longleftrightarrow> (e = KeyError c \<and> c \<notin> set (column_names t))"
proof (cases "map_of t c")
  case None
  then have "c \<notin> fst ` set t" by (simp add: map_of_eq_None_iff)
  with None show ?thesis by (auto simp: getitem_def column_names_def)
next
  case (Some col)
  then have "c \<in> fst ` set t" by (metis map_of_eq_None_iff option.distinct(1))
  with Some show ?thesis by (simp add: getitem_def column_names_def)
qed

lemma sequence_map_Inr: "(\<And>x. x \<in> set xs \<Longrightarrow> f x = Inr (g x)) \<Longrightarrow> sequence (map f xs) = Inr (map g xs)"
  by (induction xs) auto

lemma coerced_cell:
  "(case to_numeric_cell parse c of None \<Rightarrow> Some (Num 0) | Some v \<Rightarrow> Some v) = Some (Num (num_of_cell parse c))"
  by (cases "(parse, c)" rule: to_numeric_cell.cases) (auto simp: num_of_cell_def split: option.splits)

lemma fillna_to_numeric:
  "fillna 0 (to_numeric parse col) = map (\<lambda>c. Some (Num (num_of_cell parse c))) col"
  by (simp add: fillna_def to_numeric_def coerced_cell)

lemma coerce_numeric_result:
  assumes "getitem fd ''truth'' = Inr ts" and "getitem fd ''predictions'' = Inr ps"
  shows "coerce_numeric parse fd =
    Inr (setitem (setitem fd ''truth'' (fillna 0 (to_numeric parse ts)))
           ''predictions'' (fillna 0 (to_numeric parse ps)))"
  using assms
  by (simp add: coerce_numeric_def Let_def getitem_setitem_same getitem_setitem_other setitem_again setitem_twice)

lemma num_of_cell_Num [simp]: "num_of_cell parse (Some (Num x)) = x"
  by (simp add: num_of_cell_def)

lemma coerced_coerced [simp]: "coerced parse (coerced parse' col) = coerced parse' col"
  by (simp add: coerced_def)

lemma scores_coerced [simp]: "scores parse (coerced parse' ts) (coerced parse' ps) = scores parse' ts ps"
  by (auto simp: scores_def coerced_def zip_map_map)

lemma sub_series_coerced:
  "sub_series (coerced parse ts) (coerced parse ps) =
     Inr (map (\<lambda>(t, p). Some (Num (num_of_cell parse t - num_of_cell parse p))) (zip ts ps))"
  unfolding sub_series_def coerced_def zip_map_map map_map
  by (rule sequence_map_Inr) auto

lemma abs_series_nums: "abs_series (map (\<lambda>x. Some (Num (f x))) xs) = Inr (map (\<lambda>x. Some (Num \<bar>f x\<bar>)) xs)"
  unfolding abs_series_def map_map
  by (rule sequence_map_Inr) auto

lemma gt_scalar_nums: "gt_scalar (map (\<lambda>x. Some (Num x)) xs) thr = Inr (map (\<lambda>x. Some (Bool (x > thr))) xs)"
  unfolding gt_scalar_def map_map
  by (rule sequence_map_Inr) auto

lemma abs_diff_coerced:
  assumes "getitem fd ''truth'' = Inr (coerced parse ts)"
      and "getitem fd ''predictions'' = Inr (coerced parse ps)"
  shows "abs_diff fd = Inr (map (\<lambda>x. Some (Num x)) (scores parse ts ps))"
proof -
  have "abs_series (map (\<lambda>(t, p). Some (Num (num_of_cell parse t - num_of_cell parse p))) (zip ts ps))
      = Inr (map (\<lambda>(t, p). Some (Num \<bar>num_of_cell parse t - num_of_cell parse p\<bar>)) (zip ts ps))"
    using abs_series_nums [of "\<lambda>(t, p). num_of_cell parse t - num_of_cell parse p" "zip ts ps"]
    by (simp add: case_prod_unfold)
  then show ?thesis
    using assms by (simp add: abs_diff_def sub_series_coerced scores_def case_prod_unfold)
qed

lemma flag_anomalies_coerced:
  assumes "getitem fd ''truth'' = Inr (coerced parse ts)"
      and "getitem fd ''predictions'' = Inr (coerced parse ps)"
  shows "flag_anomalies thr fd = Inr (setitem fd ''anomaly'' (flags thr (scores parse ts ps)))"
  using assms by (simp add: flag_anomalies_def abs_diff_coerced gt_scalar_nums flags_def)

lemma score_anomalies_coerced:
  assumes "getitem fd ''truth'' = Inr (coerced parse ts)"
      and "getitem fd ''predictions'' = Inr (coerced parse ps)"
  shows "score_anomalies thr fd =
    Inr (setitem (setitem fd ''anomaly_score'' (map (\<lambda>x. Some (Num x)) (scores parse ts ps)))
           ''anomaly'' (flags thr (scores parse ts ps)))"
  using assms
  by (simp add: score_anomalies_def abs_diff_coerced gt_scalar_nums flags_def Let_def getitem_setitem_same)

lemma coerce_numeric_coerced:
  assumes "getitem fd ''truth'' = Inr ts" and "getitem fd ''predictions'' = Inr ps"
  shows "coerce_numeric parse fd =
    Inr (setitem (setitem fd ''truth'' (coerced parse ts)) ''predictions'' (coerced parse ps))"
  using assms by (simp add: coerce_numeric_result fillna_to_numeric coerced_def)

lemma pass_result:
  assumes "getitem fd ''truth'' = Inr ts" and "getitem fd ''predictions'' = Inr ps"
  shows "pass parse thr fd =
    Inr (setitem (setitem (setitem fd ''truth'' (coerced parse ts)) ''predictions'' (coerced parse ps))
           ''anomaly'' (flags thr (scores parse ts ps)))"
proof -
  let ?fd = "setitem (setitem fd ''truth'' (coerced parse ts)) ''predictions'' (coerced parse ps)"
  have t: "getitem ?fd ''truth'' = Inr (coerced parse ts)"
    by (simp add: getitem_setitem_same getitem_setitem_other)
  have p: "getitem ?fd ''predictions'' = Inr (coerced parse ps)"
    by (simp add: getitem_setitem_same)
  show ?thesis
    by (simp add: pass_def coerce_numeric_coerced [OF assms] flag_anomalies_coerced [OF t p])
qed

lemma pass_idempotent:
  assumes "pass parse thr fd = Inr fd1"
  shows "pass parse' thr fd1 = Inr fd1"
proof -
  obtain ts where ts: "getitem fd ''truth'' = Inr ts"
    using assms by (cases "getitem fd ''truth''") (auto simp: pass_def coerce_numeric_def)
  obtain ps where ps: "getitem fd ''predictions'' = Inr ps"
    using assms ts
    by (cases "getitem fd ''predictions''")
       (auto simp: pass_def coerce_numeric_def Let_def getitem_setitem_other)
  have fd1: "fd1 = setitem (setitem (setitem fd ''truth'' (coerced parse ts)) ''predictions'' (coerced parse ps))
           ''anomaly'' (flags thr (scores parse ts ps))"
    using assms pass_result [OF ts ps, of parse thr] by simp
  have t: "getitem fd1 ''truth'' = Inr (coerced parse ts)"
    by (simp add: fd1 getitem_setitem_same getitem_setitem_other)
  have p: "getitem fd1 ''predictions'' = Inr (coerced parse ps)"
    by (simp add: fd1 getitem_setitem_same getitem_setitem_other)
  have a: "getitem fd1 ''anomaly'' = Inr (flags thr (scores parse ts ps))"
    by (simp add: fd1 getitem_setitem_same)
  show ?thesis
    by (simp add: pass_result [OF t p] setitem_same_value [OF t] setitem_same_value [OF p]
        setitem_same_value [OF a])
qed

lemma column_names_getitem_mask [simp]: "column_names (getitem_mask t keep) = column_names t"
  by (simp add: column_names_def getitem_mask_def case_prod_unfold)

lemma map_of_getitem_mask: "map_of (getitem_mask t keep) c = map_option (take_rows keep) (map_of t c)"
  by (induction t) (auto simp: getitem_mask_def)

lemma getitem_getitem_mask:
  "getitem (getitem_mask t keep) c = and_then (getitem t c) (\<lambda>col. Inr (take_rows keep col))"
  by (simp add: getitem_def map_of_getitem_mask split: option.splits)

lemma set_take_rows: "set (take_rows keep xs) \<subseteq> set xs"
  by (auto simp: take_rows_def dest: set_zip_rightD)

lemma take_rows_map: "take_rows keep (map f xs) = map f (take_rows keep xs)"
  unfolding take_rows_def
  by (induction keep xs rule: list_induct2') auto

lemma take_rows_own_mask: "x \<in> set (take_rows (map P xs) xs) \<Longrightarrow> P x"
  by (induction xs) (auto simp: take_rows_def split: if_splits)

lemma length_take_rows: "length keep = length xs \<Longrightarrow> length (take_rows keep xs) = length (filter id keep)"
  unfolding take_rows_def
  by (induction keep xs rule: list_induct2) auto

lemma take_rows_take_rows:
  "length k1 = length k2 \<Longrightarrow> length k2 = length xs \<Longrightarrow>
   take_rows (take_rows k1 k2) (take_rows k1 xs) = take_rows (map (\<lambda>(a, b). a \<and> b) (zip k1 k2)) xs"
  unfolding take_rows_def
  by (induction k1 k2 xs rule: list_induct3) auto

lemma take_rows_nths:
  "length keep = length xs \<Longrightarrow>
   take_rows keep xs = map (\<lambda>i. xs ! i) (filter (\<lambda>i. keep ! i) [0..<length xs])"
proof (induction keep xs rule: list_induct2)
  case Nil
  then show ?case by (simp add: take_rows_def)
next
  case (Cons k ks x xs)
  have upt: "[0..<length (x # xs)] = 0 # map Suc [0..<length xs]"
    by (simp add: upt_conv_Cons map_Suc_upt del: upt_Suc)
  have "take_rows (k # ks) (x # xs) = (if k then [x] else []) @ take_rows ks xs"
    by (simp add: take_rows_def)
  also have "\<dots> = map (\<lambda>i. (x # xs) ! i) (filter (\<lambda>i. (k # ks) ! i) [0..<length (x # xs)])"
    unfolding upt by (simp add: Cons.IH filter_map comp_def)
  finally show ?case .
qed

lemma take_rows_subseq: "subseq (take_rows keep xs) xs"
  unfolding take_rows_def
  by (induction keep xs rule: list_induct2') (auto intro: subseq_Cons2 list_emb_Cons)

lemma wf_table_length:
  assumes "wf_table t" and "getitem t c = Inr col"
  shows "length col = nrows t"
proof -
  from assms(2) have "map_of t c = Some col"
    by (simp add: getitem_def split: option.splits)
  then have "(c, col) \<in> set t" by (rule map_of_SomeD)
  with assms(1) show ?thesis by (auto simp: wf_table_def list_all_iff)
qed

lemma wf_table_col_length: "wf_table t \<Longrightarrow> (c, col) \<in> set t \<Longrightarrow> length col = nrows t"
  by (auto simp: wf_table_def list_all_iff)

lemma nrows_getitem_mask:
  assumes "wf_table t" and "length keep = nrows t"
  shows "nrows (getitem_mask t keep) = length (filter id keep)"
proof (cases t)
  case Nil
  with assms show ?thesis by (simp add: nrows_def getitem_mask_def)
next
  case (Cons p t')
  obtain c col where p: "p = (c, col)" by (cases p)
  have "length col = nrows t" using Cons p by (simp add: nrows_def)
  with assms(2) have "length (take_rows keep col) = length (filter id keep)"
    by (simp add: length_take_rows)
  then show ?thesis using Cons p by (simp add: nrows_def getitem_mask_def)
qed

lemma wf_getitem_mask:
  assumes "wf_table t" and "length keep = nrows t"
  shows "wf_table (getitem_mask t keep)"
proof -
  have "length (take_rows keep col) = nrows (getitem_mask t keep)" if "(c, col) \<in> set t" for c col
    using that assms by (simp add: nrows_getitem_mask length_take_rows wf_table_col_length)
  moreover have "distinct (column_names t)" using assms(1) by (simp add: wf_table_def)
  ultimately show ?thesis
    by (auto simp: wf_table_def list_all_iff getitem_mask_def[of t keep]
        simp del: column_names_getitem_mask)
       (simp_all add: column_names_def getitem_mask_def case_prod_unfold comp_def)
qed

lemma matching_positions_length:
  "length (filter (\<lambda>i. keep ! i) [0..<length keep]) = length (filter id keep)"
proof -
  have "length (take_rows keep keep) = length (filter id keep)"
    by (simp add: length_take_rows)
  then show ?thesis by (simp add: take_rows_nths)
qed

lemma rows_of_getitem_mask:
  assumes "wf_table t" and "length keep = nrows t"
  shows "rows_of (getitem_mask t keep) = map (row_at t) (filter (\<lambda>i. keep ! i) [0..<nrows t])"
proof -
  let ?idxs = "filter (\<lambda>i. keep ! i) [0..<nrows t]"
  have m: "nrows (getitem_mask t keep) = length ?idxs"
    using assms matching_positions_length [of keep] by (simp add: nrows_getitem_mask)
  have "row_at (getitem_mask t keep) j = row_at t (?idxs ! j)" if "j < length ?idxs" for j
  proof -
    have "take_rows keep col ! j = col ! (?idxs ! j)" if "(c, col) \<in> set t" for c col
    proof -
      have len: "length col = nrows t" using assms(1) that by (rule wf_table_col_length)
      then have "take_rows keep col = map (\<lambda>i. col ! i) ?idxs"
        using assms(2) take_rows_nths [of keep col] by simp
      with \<open>j < length ?idxs\<close> show ?thesis by simp
    qed
    then show ?thesis
      by (auto simp: row_at_def getitem_mask_def)
  qed
  then have "rows_of (getitem_mask t keep) = map (\<lambda>j. row_at t (?idxs ! j)) [0..<length ?idxs]"
    by (simp add: rows_of_def m)
  also have "\<dots> = map (row_at t) (map (\<lambda>j. ?idxs ! j) [0..<length ?idxs])"
    by simp
  also have "\<dots> = map (row_at t) ?idxs"
    by (simp only: map_nth)
  finally show ?thesis .
qed

lemma rows_of_getitem_mask_take:
  assumes "wf_table t" and "length keep = nrows t"
  shows "rows_of (getitem_mask t keep) = take_rows keep (rows_of t)"
proof -
  have "take_rows keep (rows_of t) = map (\<lambda>i. rows_of t ! i) (filter (\<lambda>i. keep ! i) [0..<nrows t])"
    using assms(2) take_rows_nths [of keep "rows_of t"] by (simp add: rows_of_def)
  also have "\<dots> = map (row_at t) (filter (\<lambda>i. keep ! i) [0..<nrows t])"
    by (rule map_cong) (auto simp: rows_of_def)
  finally show ?thesis using assms by (simp add: rows_of_getitem_mask)
qed

lemma filter_eq_Inr:
  "filter_eq t c sel = Inr fd \<longleftrightarrow>
     (\<exists>col. getitem t c = Inr col \<and> fd = getitem_mask t (eq_scalar col sel))"
  by (cases "getitem t c") (auto simp: filter_eq_def)

lemma filter_eq_present:
  "getitem t c = Inr col \<Longrightarrow> filter_eq t c sel = Inr (getitem_mask t (eq_scalar col sel))"
  by (simp add: filter_eq_def)

lemma filter_eq_Inl: "filter_eq t c sel = Inl e \<longleftrightarrow> (e = KeyError c \<and> c \<notin> set (column_names t))"
proof (cases "getitem t c")
  case (Inl a)
  then show ?thesis using getitem_Inl_iff [of t c a] by (auto simp: filter_eq_def)
next
  case (Inr col)
  then show ?thesis using getitem_Inr_iff [of t c] by (auto simp: filter_eq_def)
qed

lemma length_eq_scalar [simp]: "length (eq_scalar col sel) = length col"
  by (simp add: eq_scalar_def)

lemma eq_scalar_take_rows: "eq_scalar (take_rows keep col) sel = take_rows keep (eq_scalar col sel)"
  by (simp add: eq_scalar_def take_rows_map)

lemma getitem_mask_twice:
  assumes "wf_table t" and "length k1 = nrows t" and "length k2 = nrows t"
  shows "getitem_mask (getitem_mask t k1) (take_rows k1 k2) =
         getitem_mask t (map (\<lambda>(a, b). a \<and> b) (zip k1 k2))"
proof -
  have "take_rows (take_rows k1 k2) (take_rows k1 col) =
        take_rows (map (\<lambda>(a, b). a \<and> b) (zip k1 k2)) col" if "(c, col) \<in> set t" for c col
    using assms that by (simp add: take_rows_take_rows wf_table_col_length)
  then show ?thesis by (auto simp: getitem_mask_def)
qed

lemma zip_and_commute:
  "map (\<lambda>(a, b). a \<and> b) (zip k1 k2) = map (\<lambda>(a, b). a \<and> b) (zip k2 k1)"
  by (induction k1 k2 rule: list_induct2') auto

lemma filter_eq_twice:
  assumes "wf_table t" and "getitem t c = Inr col" and "getitem t c' = Inr col'"
  shows "and_then (filter_eq t c sel) (\<lambda>fd. filter_eq fd c' sel') =
         Inr (getitem_mask t (map (\<lambda>(a, b). a \<and> b) (zip (eq_scalar col sel) (eq_scalar col' sel'))))"
proof -
  have l: "length (eq_scalar col sel) = nrows t" "length (eq_scalar col' sel') = nrows t"
    using assms by (simp_all add: wf_table_length)
  show ?thesis
    using assms(2,3)
    by (simp add: filter_eq_present getitem_getitem_mask eq_scalar_take_rows
        getitem_mask_twice [OF assms(1) l])
qed

lemma filter_eq_wf:
  assumes "wf_table t" and "filter_eq t c sel = Inr fd"
  shows "wf_table fd" and "column_names fd = column_names t"
    and "subseq (rows_of fd) (rows_of t)"
proof -
  obtain col where col: "getitem t c = Inr col" and fd: "fd = getitem_mask t (eq_scalar col sel)"
    using assms(2) by (auto simp: filter_eq_Inr)
  have len: "length (eq_scalar col sel) = nrows t"
    using assms(1) col by (simp add: wf_table_length)
  show "wf_table fd" unfolding fd using assms(1) len by (rule wf_getitem_mask)
  show "column_names fd = column_names t" by (simp add: fd)
  show "subseq (rows_of fd) (rows_of t)"
    unfolding fd rows_of_getitem_mask_take [OF assms(1) len] by (rule take_rows_subseq)
qed

lemma filter_eq_no_missing:
  assumes "filter_eq t c sel = Inr fd"
  shows "\<exists>col. getitem fd c = Inr col \<and> (\<forall>x \<in> set col. eq_cell x sel)"
proof -
  obtain col where col: "getitem t c = Inr col" and fd: "fd = getitem_mask t (eq_scalar col sel)"
    using assms by (auto simp: filter_eq_Inr)
  have "getitem fd c = Inr (take_rows (eq_scalar col sel) col)"
    by (simp add: fd getitem_getitem_mask col)
  moreover have "\<forall>x \<in> set (take_rows (eq_scalar col sel) col). eq_cell x sel"
    unfolding eq_scalar_def using take_rows_own_mask [of _ "\<lambda>c. eq_cell c sel" col] by blast
  ultimately show ?thesis by blast
qed

lemma filter_eq_column_subset:
  assumes "filter_eq t c sel = Inr fd" and "getitem fd c' = Inr col'"
  shows "\<exists>col. getitem t c' = Inr col \<and> set col' \<subseteq> set col"
proof -
  obtain k where fd: "fd = getitem_mask t k"
    using assms(1) by (auto simp: filter_eq_Inr)
  from assms(2) show ?thesis
    unfolding fd getitem_getitem_mask
    by (cases "getitem t c'") (auto dest: subsetD [OF set_take_rows])
qed


lemma derive_result:
  assumes "getitem fd ''truth'' = Inr ts" and "getitem fd ''predictions'' = Inr ps"
  shows "derive parse thr fd =
    Inr (setitem (setitem
           (setitem (setitem (setitem fd ''truth'' (coerced parse ts)) ''predictions'' (coerced parse ps))
              ''anomaly'' (flags thr (scores parse ts ps)))
           ''anomaly_score'' (map (\<lambda>x. Some (Num x)) (scores parse ts ps)))
           ''anomaly'' (flags thr (scores parse ts ps)),
         getitem_mask
           (setitem (setitem (setitem fd ''truth'' (coerced parse ts)) ''predictions'' (coerced parse ps))
              ''anomaly'' (flags thr (scores parse ts ps)))
           (map (\<lambda>c. c = Some (Bool True)) (flags thr (scores parse ts ps))))"
proof -
  let ?fd1 = "setitem (setitem (setitem fd ''truth'' (coerced parse ts)) ''predictions'' (coerced parse ps))
              ''anomaly'' (flags thr (scores parse ts ps))"
  have p1: "pass parse thr fd = Inr ?fd1" by (rule pass_result [OF assms])
  have p2: "pass parse thr ?fd1 = Inr ?fd1" by (rule pass_idempotent [OF p1])
  have t: "getitem ?fd1 ''truth'' = Inr (coerced parse ts)"
    by (simp add: getitem_setitem_same getitem_setitem_other)
  have p: "getitem ?fd1 ''predictions'' = Inr (coerced parse ps)"
    by (simp add: getitem_setitem_same getitem_setitem_other)
  have a: "select_anomalies ?fd1 =
      Inr (getitem_mask ?fd1 (map (\<lambda>c. c = Some (Bool True)) (flags thr (scores parse ts ps))))"
    by (simp add: select_anomalies_def getitem_setitem_same)
  show ?thesis
    unfolding derive_def p1 and_then_Inr p2 a score_anomalies_coerced [OF t p]
    by simp
qed

lemma derive_columns:
  assumes "getitem fd ''truth'' = Inr ts" and "getitem fd ''predictions'' = Inr ps"
  shows "\<exists>fd' an. derive parse thr fd = Inr (fd', an)
     \<and> getitem fd' ''truth'' = Inr (coerced parse ts)
     \<and> getitem fd' ''predictions'' = Inr (coerced parse ps)
     \<and> getitem fd' ''anomaly_score'' = Inr (map (\<lambda>x. Some (Num x)) (scores parse ts ps))
     \<and> getitem fd' ''anomaly'' = Inr (flags thr (scores parse ts ps))"
  by (simp add: derive_result [OF assms] getitem_setitem_same getitem_setitem_other)

section \<open>Facts about the sidebar and the script\<close>

lemma py_eq_refl [simp]: "py_eq v v"
  by (cases v) auto

lemma set_dropna: "set (dropna col) = {v. Some v \<in> set col}"
  by (induction col rule: dropna.induct) auto

lemma set_unique_subset: "set (unique vs) \<subseteq> set vs"
  by (induction vs rule: unique.induct) auto

lemma distinct_unique: "distinct (unique vs)"
proof (induction vs rule: unique.induct)
  case 1
  then show ?case by simp
next
  case (2 v vs)
  have "v \<notin> set (unique (filter (\<lambda>w. \<not> py_eq v w) vs))"
    using set_unique_subset [of "filter (\<lambda>w. \<not> py_eq v w) vs"] by auto
  with 2 show ?case by simp
qed

lemma unique_covers: "x \<in> set vs \<Longrightarrow> \<exists>o' \<in> set (unique vs). py_eq o' x"
proof (induction vs rule: unique.induct)
  case 1
  then show ?case by simp
next
  case (2 v vs)
  show ?case
  proof (cases "py_eq v x")
    case True
    then show ?thesis by auto
  next
    case False
    with 2(2) have "x \<in> set (filter (\<lambda>w. \<not> py_eq v w) vs)" by auto
    with 2(1) show ?thesis by auto
  qed
qed

lemma sorted_py_Inr:
  assumes "sorted_py vs = Inr opts"
  shows "set opts = set vs" and "distinct opts = distinct vs"
  using assms by (auto simp: sorted_py_def split: if_splits)

lemma sorted_py_total:
  "list_all is_str vs \<or> list_all (\<lambda>v. \<not> is_str v) vs \<Longrightarrow> \<exists>opts. sorted_py vs = Inr opts"
  by (auto simp: sorted_py_def)

lemma options_offered:
  assumes "options t c = Inr opts"
  shows "\<exists>col. getitem t c = Inr col \<and> offered opts col"
proof -
  obtain col where col: "getitem t c = Inr col"
    and s: "sorted_py (unique (dropna col)) = Inr opts"
    using assms by (cases "getitem t c") (auto simp: options_def)
  have set: "set opts = set (unique (dropna col))" and d: "distinct opts"
    using sorted_py_Inr [OF s] distinct_unique by auto
  have a: "\<forall>v \<in> set opts. Some v \<in> set col"
    using set set_unique_subset [of "dropna col"] set_dropna [of col] by auto
  have b: "\<forall>v. Some v \<in> set col \<longrightarrow> (\<exists>o' \<in> set opts. py_eq v o')"
  proof (intro allI impI)
    fix v assume "Some v \<in> set col"
    then have "v \<in> set (dropna col)" by (simp add: set_dropna)
    then obtain o' where "o' \<in> set (unique (dropna col))" "py_eq o' v"
      using unique_covers by blast
    moreover have "py_eq v o'" using \<open>py_eq o' v\<close>
      by (cases o'; cases v) auto
    ultimately show "\<exists>o' \<in> set opts. py_eq v o'" using set by auto
  qed
  have "offered opts col"
    unfolding offered_def using d a b
    by (auto simp: list_all_iff list_ex_iff split: option.splits)
  with col show ?thesis by blast
qed

lemma unique_preserves: "list_all P vs \<Longrightarrow> list_all P (unique vs)"
  using set_unique_subset [of vs] by (auto simp: list_all_iff)

lemma options_total:
  assumes "getitem t c = Inr col" and "comparable col"
  shows "\<exists>opts. options t c = Inr opts"
proof -
  have "list_all is_str (unique (dropna col)) \<or> list_all (\<lambda>v. \<not> is_str v) (unique (dropna col))"
    using assms(2) unique_preserves unfolding comparable_def by blast
  then show ?thesis using assms(1) sorted_py_total by (simp add: options_def)
qed

lemma comparable_take_rows: "comparable col \<Longrightarrow> comparable (take_rows keep col)"
  using set_take_rows [of keep col]
  by (auto simp: comparable_def list_all_iff set_dropna)

lemma sidebar_Inr:
  assumes "sidebar ui base = Inr v"
  shows "\<exists>fd1 fd2. options base ''month'' = Inr (month_options v)
     \<and> month v = selectbox (month_options v) (month_pick ui)
     \<and> filter_eq base ''month'' (month v) = Inr fd1
     \<and> (if filter_by_day ui
         then \<exists>dopts. options fd1 ''day_of_week'' = Inr dopts \<and> day_options v = Some dopts
              \<and> day_of_week v = selectbox dopts (day_pick ui)
              \<and> filter_eq fd1 ''day_of_week'' (day_of_week v) = Inr fd2
         else day_options v = None \<and> day_of_week v = None \<and> fd2 = fd1)
     \<and> (if filter_by_hour ui
         then \<exists>hopts. options fd2 ''hour'' = Inr hopts \<and> hour_options v = Some hopts
              \<and> hour v = selectbox hopts (hour_pick ui)
              \<and> filter_eq fd2 ''hour'' (hour v) = Inr (filtered_data v)
         else hour_options v = None \<and> hour v = None \<and> filtered_data v = fd2)"
  using assms
  unfolding sidebar_def Let_def and_then_def
  by (auto split: sum.splits if_splits prod.splits)

lemma cell_at_getitem: "getitem t c = Inr col \<Longrightarrow> cell_at t c i = col ! i"
  by (simp add: cell_at_def getitem_def split: option.splits)

lemma eq_scalar_positions:
  assumes "wf_table t" and "getitem t c = Inr col"
  shows "eq_scalar col sel = map (\<lambda>i. eq_cell (cell_at t c i) sel) [0..<nrows t]"
proof -
  have len: "length col = nrows t" using assms by (rule wf_table_length)
  have "eq_scalar col sel = map (\<lambda>c. eq_cell c sel) (map (\<lambda>i. col ! i) [0..<length col])"
    by (simp only: map_nth eq_scalar_def)
  then show ?thesis using assms(2) len by (simp add: cell_at_getitem)
qed

lemma zip_and_positions:
  "map (\<lambda>(a, b). a \<and> b) (zip (map P xs) (map Q xs)) = map (\<lambda>x. P x \<and> Q x) xs"
  by (induction xs) auto

lemma filter_eq_first:
  assumes "wf_table t" and "getitem t c = Inr col"
  shows "filter_eq t c sel =
         Inr (getitem_mask t (map (\<lambda>i. eq_cell (cell_at t c i) sel) [0..<nrows t]))"
  using assms by (simp add: filter_eq_present eq_scalar_positions)

lemma filter_eq_next:
  assumes "wf_table t" and "getitem t c = Inr col"
  shows "filter_eq (getitem_mask t (map P [0..<nrows t])) c sel =
         Inr (getitem_mask t (map (\<lambda>i. P i \<and> eq_cell (cell_at t c i) sel) [0..<nrows t]))"
proof -
  let ?k = "map P [0..<nrows t]"
  have g: "getitem (getitem_mask t ?k) c = Inr (take_rows ?k col)"
    using assms(2) by (simp add: getitem_getitem_mask)
  have l1: "length ?k = nrows t" by simp
  have l2: "length (eq_scalar col sel) = nrows t"
    using assms by (simp add: wf_table_length)
  show ?thesis
    unfolding filter_eq_present [OF g] eq_scalar_take_rows
      getitem_mask_twice [OF assms(1) l1 l2]
    by (simp add: eq_scalar_positions [OF assms] zip_and_positions)
qed

lemma applyFilters_mask:
  assumes "wf_table t" and "''month'' \<in> set (column_names t)"
      and "d \<noteq> None \<longrightarrow> ''day_of_week'' \<in> set (column_names t)"
      and "h \<noteq> None \<longrightarrow> ''hour'' \<in> set (column_names t)"
  shows "applyFilters t m d h = Inr (getitem_mask t (map (matches t m d h) [0..<nrows t]))"
proof -
  obtain mc where mc: "getitem t ''month'' = Inr mc"
    using assms(2) getitem_Inr_iff by blast
  show ?thesis
  proof (cases d)
    case dn: None
    show ?thesis
    proof (cases h)
      case None
      with dn show ?thesis
        by (simp add: applyFilters_def filter_eq_first [OF assms(1) mc] matches_def [abs_def])
    next
      case (Some hv)
      then obtain hc where hc: "getitem t ''hour'' = Inr hc"
        using assms(4) getitem_Inr_iff by blast
      from dn Some show ?thesis
        by (simp add: applyFilters_def filter_eq_first [OF assms(1) mc]
            filter_eq_next [OF assms(1) hc] matches_def [abs_def])
    qed
  next
    case ds: (Some dv)
    then obtain dc where dc: "getitem t ''day_of_week'' = Inr dc"
      using assms(3) getitem_Inr_iff by blast
    show ?thesis
    proof (cases h)
      case None
      with ds show ?thesis
        by (simp add: applyFilters_def filter_eq_first [OF assms(1) mc]
            filter_eq_next [OF assms(1) dc] matches_def [abs_def])
    next
      case (Some hv)
      then obtain hc where hc: "getitem t ''hour'' = Inr hc"
        using assms(4) getitem_Inr_iff by blast
      from ds Some show ?thesis
        by (simp add: applyFilters_def filter_eq_first [OF assms(1) mc]
            filter_eq_next [OF assms(1) dc] filter_eq_next [OF assms(1) hc] matches_def [abs_def])
    qed
  qed
qed

lemma applyFilters_columns:
  assumes "applyFilters t m d h = Inr fd"
  shows "column_names fd = column_names t"
    and "''month'' \<in> set (column_names t)"
    and "d \<noteq> None \<longrightarrow> ''day_of_week'' \<in> set (column_names t)"
    and "h \<noteq> None \<longrightarrow> ''hour'' \<in> set (column_names t)"
proof -
  obtain fd1 where f1: "filter_eq t ''month'' m = Inr fd1"
    using assms by (cases "filter_eq t ''month'' m") (auto simp: applyFilters_def)
  obtain fd2 where f2: "(case d of None \<Rightarrow> Inr fd1 | Some dv \<Rightarrow> filter_eq fd1 ''day_of_week'' dv) = Inr fd2"
    using assms f1
    by (cases "case d of None \<Rightarrow> Inr fd1 | Some dv \<Rightarrow> filter_eq fd1 ''day_of_week'' dv")
       (auto simp: applyFilters_def)
  have f3: "(case h of None \<Rightarrow> Inr fd2 | Some hv \<Rightarrow> filter_eq fd2 ''hour'' hv) = Inr fd"
    using assms f1 f2 by (simp add: applyFilters_def)
  have c1: "column_names fd1 = column_names t" and m: "''month'' \<in> set (column_names t)"
    using f1 getitem_Inr_iff [of t "''month''"] by (auto simp: filter_eq_Inr)
  have c2: "column_names fd2 = column_names fd1"
    and dd: "d \<noteq> None \<longrightarrow> ''day_of_week'' \<in> set (column_names fd1)"
    using f2 getitem_Inr_iff [of fd1 "''day_of_week''"]
    by (auto simp: filter_eq_Inr split: option.splits)
  have c3: "column_names fd = column_names fd2"
    and hh: "h \<noteq> None \<longrightarrow> ''hour'' \<in> set (column_names fd2)"
    using f3 getitem_Inr_iff [of fd2 "''hour''"]
    by (auto simp: filter_eq_Inr split: option.splits)
  show "column_names fd = column_names t" using c1 c2 c3 by simp
  show "''month'' \<in> set (column_names t)" by (rule m)
  show "d \<noteq> None \<longrightarrow> ''day_of_week'' \<in> set (column_names t)" using dd c1 by simp
  show "h \<noteq> None \<longrightarrow> ''hour'' \<in> set (column_names t)" using hh c1 c2 by simp
qed

lemma sidebar_applyFilters:
  assumes "sidebar ui base = Inr v"
  shows "applyFilters base (month v)
           (if filter_by_day ui then Some (day_of_week v) else None)
           (if filter_by_hour ui then Some (hour v) else None) = Inr (filtered_data v)"
  using sidebar_Inr [OF assms]
  by (auto simp: applyFilters_def split: if_splits)

lemma rows_of_matching:
  assumes "wf_table t"
  shows "rows_of (getitem_mask t (map P [0..<nrows t])) = map (row_at t) (filter P [0..<nrows t])"
proof -
  have "filter (\<lambda>i. map P [0..<nrows t] ! i) [0..<nrows t] = filter P [0..<nrows t]"
    by (rule filter_cong) auto
  then show ?thesis
    using rows_of_getitem_mask [OF assms, of "map P [0..<nrows t]"] by simp
qed

lemma subseq_matching: "subseq (map (row_at t) (filter P [0..<nrows t])) (rows_of t)"
  unfolding rows_of_def by (intro subseq_map subseq_filter_left)

lemma demo_sidebar:
  "sidebar demo_controls demo =
     Inr \<lparr>month_options = [Num 6, Num 7], month = Some (Num 6),
          day_options = Some [Str ''Mon'', Str ''Tue''], day_of_week = Some (Str ''Mon''),
          hour_options = Some [Num 8], hour = Some (Num 8),
          filtered_data =
            [(''month'', [Some (Num 6)]), (''day_of_week'', [Some (Str ''Mon'')]),
             (''hour'', [Some (Num 8)]), (''truth'', [Some (Num 5)]),
             (''predictions'', [Some (Num 2)])]\<rparr>"
  by code_simp

lemma demo_wf: "wf_table demo"
  by (simp add: wf_table_def demo_def column_names_def nrows_def)

lemma demo_columns: "column_names demo = [''month'', ''day_of_week'', ''hour'', ''truth'', ''predictions'']"
  by (simp add: demo_def column_names_def)

lemma app_Inr:
  assumes "app read_csv parse ui = Inr s"
  shows "\<exists>v fd an. load_data read_csv = Inr (data s) \<and> sidebar ui (data s) = Inr v
     \<and> derive parse (threshold ui) (filtered_data v) = Inr (fd, an)
     \<and> selection s = v\<lparr>filtered_data := fd\<rparr> \<and> anomalies s = an"
  using assms unfolding app_def and_then_def
  by (auto split: sum.splits prod.splits)

lemma sidebar_columns:
  assumes "sidebar ui base = Inr v"
  shows "column_names (filtered_data v) = column_names base"
    and "''month'' \<in> set (column_names base)"
    and "filter_by_day ui \<longrightarrow> ''day_of_week'' \<in> set (column_names base)"
    and "filter_by_hour ui \<longrightarrow> ''hour'' \<in> set (column_names base)"
  using applyFilters_columns [OF sidebar_applyFilters [OF assms]] by simp_all

lemma app_total:
  assumes "load_data read_csv = Inr base" and "sidebar ui base = Inr v"
      and "''truth'' \<in> set (column_names base)" and "''predictions'' \<in> set (column_names base)"
  shows "\<exists>s. app read_csv parse ui = Inr s"
proof -
  have c: "column_names (filtered_data v) = column_names base"
    by (rule sidebar_columns(1) [OF assms(2)])
  obtain ts where ts: "getitem (filtered_data v) ''truth'' = Inr ts"
    using assms(3) c getitem_Inr_iff [of "filtered_data v"] by auto
  obtain ps where ps: "getitem (filtered_data v) ''predictions'' = Inr ps"
    using assms(4) c getitem_Inr_iff [of "filtered_data v"] by auto
  obtain fd an where "derive parse (threshold ui) (filtered_data v) = Inr (fd, an)"
    using derive_columns [OF ts ps] by blast
  then show ?thesis using assms(1,2) by (simp add: app_def)
qed







lemma eq_cell_None [simp]: "\<not> eq_cell None sel"
  by (simp add: eq_cell_def)

lemma filter_eq_drops_missing:
  assumes "filter_eq t c sel = Inr fd"
  shows "\<exists>col. getitem fd c = Inr col \<and> None \<notin> set col"
proof -
  obtain col where "getitem fd c = Inr col" "\<forall>x \<in> set col. eq_cell x sel"
    using filter_eq_no_missing [OF assms] by blast
  moreover from this have "None \<notin> set col" by auto
  ultimately show ?thesis by blast
qed

lemma filter_eq_keeps_free_of_missing:
  assumes "filter_eq t c sel = Inr fd" and "\<exists>col. getitem t c' = Inr col \<and> None \<notin> set col"
  shows "\<exists>col. getitem fd c' = Inr col \<and> None \<notin> set col"
proof -
  obtain k where fd: "fd = getitem_mask t k"
    using assms(1) by (auto simp: filter_eq_Inr)
  obtain col where col: "getitem t c' = Inr col" "None \<notin> set col"
    using assms(2) by blast
  have "getitem fd c' = Inr (take_rows k col)"
    by (simp add: fd getitem_getitem_mask col)
  moreover have "None \<notin> set (take_rows k col)"
    using col(2) set_take_rows [of k col] by auto
  ultimately show ?thesis by blast
qed

lemma derive_needs_columns:
  assumes "derive parse thr fd = Inr r"
  shows "''truth'' \<in> set (column_names fd)" and "''predictions'' \<in> set (column_names fd)"
proof -
  obtain fd1 where p: "pass parse thr fd = Inr fd1"
    using assms by (cases "pass parse thr fd") (auto simp: derive_def)
  then obtain fd2 where c: "coerce_numeric parse fd = Inr fd2"
    by (cases "coerce_numeric parse fd") (auto simp: pass_def)
  obtain ts where ts: "getitem fd ''truth'' = Inr ts"
    using c by (cases "getitem fd ''truth''") (auto simp: coerce_numeric_def)
  obtain ps where ps: "getitem fd ''predictions'' = Inr ps"
    using c ts
    by (cases "getitem fd ''predictions''")
       (auto simp: coerce_numeric_def Let_def getitem_setitem_other)
  show "''truth'' \<in> set (column_names fd)" using ts getitem_Inr_iff by blast
  show "''predictions'' \<in> set (column_names fd)" using ps getitem_Inr_iff by blast
qed

lemma app_needs_columns:
  assumes "app read_csv parse ui = Inr s" and "read_csv data_path = Inr t"
  shows "''month'' \<in> set (column_names t)"
    and "''truth'' \<in> set (column_names t)" and "''predictions'' \<in> set (column_names t)"
    and "filter_by_day ui \<longrightarrow> ''day_of_week'' \<in> set (column_names t)"
    and "filter_by_hour ui \<longrightarrow> ''hour'' \<in> set (column_names t)"
proof -
  obtain v fd an where l: "load_data read_csv = Inr (data s)"
    and sb: "sidebar ui (data s) = Inr v"
    and d: "derive parse (threshold ui) (filtered_data v) = Inr (fd, an)"
    using app_Inr [OF assms(1)] by blast
  have t: "data s = t" using l assms(2) by (simp add: load_data_def)
  note c = sidebar_columns [OF sb, unfolded t]
  note n = derive_needs_columns [OF d, unfolded c(1)]
  show "''month'' \<in> set (column_names t)" by (rule c(2))
  show "''truth'' \<in> set (column_names t)" by (rule n(1))
  show "''predictions'' \<in> set (column_names t)" by (rule n(2))
  show "filter_by_day ui \<longrightarrow> ''day_of_week'' \<in> set (column_names t)" by (rule c(3))
  show "filter_by_hour ui \<longrightarrow> ''hour'' \<in> set (column_names t)" by (rule c(4))
qed

section \<open>The derived columns\<close>









section \<open>The filters\<close>

text \<open>
  C5. For every frame that has the \<^verbatim>\<open>day_of_week\<close> and \<^verbatim>\<open>hour\<close> columns and
  every two selected values, filtering by day of week and then by hour returns the
  same frame as filtering by hour and then by day of week, and both return a frame.
\<close>

theorem filters_commute:
  assumes "wf_table t"
      and "''day_of_week'' \<in> set (column_names t)" and "''hour'' \<in> set (column_names t)"
  shows "and_then (filter_eq t ''day_of_week'' d) (\<lambda>fd. filter_eq fd ''hour'' h) =
         and_then (filter_eq t ''hour'' h) (\<lambda>fd. filter_eq fd ''day_of_week'' d)
       \<and> (\<exists>fd. and_then (filter_eq t ''day_of_week'' d) (\<lambda>fd. filter_eq fd ''hour'' h) = Inr fd)"
proof -
  obtain dc where dc: "getitem t ''day_of_week'' = Inr dc"
    using assms(2) getitem_Inr_iff by blast
  obtain hc where hc: "getitem t ''hour'' = Inr hc"
    using assms(3) getitem_Inr_iff by blast
  show ?thesis
    by (simp add: filter_eq_twice [OF assms(1) dc hc] filter_eq_twice [OF assms(1) hc dc]
        zip_and_commute [of "eq_scalar dc d"])
qed

theorem filters_commute_witness:
  "and_then (filter_eq demo ''day_of_week'' (Some (Str ''Mon''))) (\<lambda>fd. filter_eq fd ''hour'' (Some (Num 8))) =
   and_then (filter_eq demo ''hour'' (Some (Num 8))) (\<lambda>fd. filter_eq fd ''day_of_week'' (Some (Str ''Mon'')))
   \<and> (\<exists>fd. and_then (filter_eq demo ''day_of_week'' (Some (Str ''Mon''))) (\<lambda>fd. filter_eq fd ''hour'' (Some (Num 8))) = Inr fd)"
proof -
  have wf: "wf_table demo"
    by (simp add: wf_table_def demo_def column_names_def nrows_def)
  have d: "''day_of_week'' \<in> set (column_names demo)"
    by (simp add: demo_def column_names_def)
  have h: "''hour'' \<in> set (column_names demo)"
    by (simp add: demo_def column_names_def)
  show ?thesis
    by (rule filters_commute [OF wf d h])
qed

text \<open>
  C6. For every well-formed base frame and every setting of the sidebar, the view after
  line 42 has the columns of the base frame in the same order, its rows are the rows
  of the base frame at the positions that pass the active filters, in increasing
  position (so they are a subsequence of the base rows, each one unchanged), and the
  frame bound to \<^verbatim>\<open>data\<close> at the end of the script is the frame that was loaded.
\<close>

theorem filtering_keeps_rows_intact:
  assumes "load_data read_csv = Inr base" and "wf_table base" and "sidebar ui base = Inr v"
  shows "column_names (filtered_data v) = column_names base
     \<and> rows_of (filtered_data v) =
         map (row_at base)
           (filter (matches base (month v)
                      (if filter_by_day ui then Some (day_of_week v) else None)
                      (if filter_by_hour ui then Some (hour v) else None)) [0..<nrows base])
     \<and> subseq (rows_of (filtered_data v)) (rows_of base)
     \<and> (\<forall>parse s. app read_csv parse ui = Inr s \<longrightarrow> data s = base)"
proof -
  let ?d = "if filter_by_day ui then Some (day_of_week v) else None"
  let ?h = "if filter_by_hour ui then Some (hour v) else None"
  have a: "applyFilters base (month v) ?d ?h = Inr (filtered_data v)"
    by (rule sidebar_applyFilters [OF assms(3)])
  note c = applyFilters_columns [OF a]
  have "applyFilters base (month v) ?d ?h =
      Inr (getitem_mask base (map (matches base (month v) ?d ?h) [0..<nrows base]))"
    by (rule applyFilters_mask [OF assms(2) c(2) c(3) c(4)])
  with a have fd: "filtered_data v = getitem_mask base (map (matches base (month v) ?d ?h) [0..<nrows base])"
    by simp
  have r: "rows_of (filtered_data v) = map (row_at base) (filter (matches base (month v) ?d ?h) [0..<nrows base])"
    unfolding fd by (rule rows_of_matching [OF assms(2)])
  have s: "subseq (rows_of (filtered_data v)) (rows_of base)"
    unfolding r by (rule subseq_matching)
  have "data s = base" if "app read_csv parse ui = Inr s" for parse s
    using app_Inr [OF that] assms(1) by auto
  with c(1) r s show ?thesis by blast
qed

theorem filtering_keeps_rows_intact_witness:
  "\<exists>v. sidebar demo_controls demo = Inr v
     \<and> column_names (filtered_data v) = column_names demo
     \<and> rows_of (filtered_data v) =
         [[Some (Num 6), Some (Str ''Mon''), Some (Num 8), Some (Num 5), Some (Num 2)]]
     \<and> subseq (rows_of (filtered_data v)) (rows_of demo)
     \<and> (\<exists>s. app (\<lambda>p. Inr demo) (\<lambda>s. None) demo_controls = Inr s \<and> data s = demo)"
proof -
  have l: "load_data (\<lambda>p. Inr demo) = Inr demo" by (simp add: load_data_def)
  obtain v where v: "sidebar demo_controls demo = Inr v"
    using demo_sidebar by blast
  note th = filtering_keeps_rows_intact [OF l demo_wf v]
  have "\<exists>s. app (\<lambda>p. Inr demo) (\<lambda>s. None) demo_controls = Inr s"
    by (rule app_total [OF l v]) (simp_all add: demo_columns)
  with th have run: "\<exists>s. app (\<lambda>p. Inr demo) (\<lambda>s. None) demo_controls = Inr s \<and> data s = demo"
    by blast
  have rows: "rows_of (filtered_data v) =
      [[Some (Num 6), Some (Str ''Mon''), Some (Num 8), Some (Num 5), Some (Num 2)]]"
    using v unfolding demo_sidebar by (auto simp: rows_of_def row_at_def nrows_def)
  show ?thesis using v th rows run by blast
qed



text \<open>
  C8. Whenever the sidebar returns, the month options are the distinct values of the
  month column of the base frame, the day-of-week options are the distinct values of
  the day-of-week column of the month-filtered frame, and the hour options are the
  distinct values of the hour column of the frame filtered by month and, when that
  filter is active, by day of week.
\<close>

theorem options_follow_the_filters:
  assumes "sidebar ui base = Inr v"
  shows "\<exists>mcol fd1 fd2. getitem base ''month'' = Inr mcol \<and> offered (month_options v) mcol
     \<and> filter_eq base ''month'' (month v) = Inr fd1
     \<and> (if filter_by_day ui
         then filter_eq fd1 ''day_of_week'' (day_of_week v) = Inr fd2
              \<and> (\<exists>dopts dcol. day_options v = Some dopts
                    \<and> getitem fd1 ''day_of_week'' = Inr dcol \<and> offered dopts dcol)
         else fd2 = fd1 \<and> day_options v = None)
     \<and> (if filter_by_hour ui
         then \<exists>hopts hcol. hour_options v = Some hopts
                \<and> getitem fd2 ''hour'' = Inr hcol \<and> offered hopts hcol
         else hour_options v = None)"
proof -
  obtain fd1 fd2 where mo: "options base ''month'' = Inr (month_options v)"
    and f1: "filter_eq base ''month'' (month v) = Inr fd1"
    and dd: "if filter_by_day ui
         then \<exists>dopts. options fd1 ''day_of_week'' = Inr dopts \<and> day_options v = Some dopts
              \<and> day_of_week v = selectbox dopts (day_pick ui)
              \<and> filter_eq fd1 ''day_of_week'' (day_of_week v) = Inr fd2
         else day_options v = None \<and> day_of_week v = None \<and> fd2 = fd1"
    and hh: "if filter_by_hour ui
         then \<exists>hopts. options fd2 ''hour'' = Inr hopts \<and> hour_options v = Some hopts
              \<and> hour v = selectbox hopts (hour_pick ui)
              \<and> filter_eq fd2 ''hour'' (hour v) = Inr (filtered_data v)
         else hour_options v = None \<and> hour v = None \<and> filtered_data v = fd2"
    using sidebar_Inr [OF assms] by blast
  obtain mcol where m: "getitem base ''month'' = Inr mcol" "offered (month_options v) mcol"
    using options_offered [OF mo] by blast
  have d: "if filter_by_day ui
         then filter_eq fd1 ''day_of_week'' (day_of_week v) = Inr fd2
              \<and> (\<exists>dopts dcol. day_options v = Some dopts
                    \<and> getitem fd1 ''day_of_week'' = Inr dcol \<and> offered dopts dcol)
         else fd2 = fd1 \<and> day_options v = None"
    using dd by (auto split: if_splits dest: options_offered)
  have h: "if filter_by_hour ui
         then \<exists>hopts hcol. hour_options v = Some hopts
                \<and> getitem fd2 ''hour'' = Inr hcol \<and> offered hopts hcol
         else hour_options v = None"
    using hh by (auto split: if_splits dest: options_offered)
  show ?thesis using m f1 d h by blast
qed

theorem options_follow_the_filters_witness:
  "\<exists>v mcol fd1 fd2 dcol hcol. sidebar demo_controls demo = Inr v
     \<and> getitem demo ''month'' = Inr mcol \<and> month_options v = [Num 6, Num 7]
     \<and> offered [Num 6, Num 7] mcol
     \<and> filter_eq demo ''month'' (Some (Num 6)) = Inr fd1
     \<and> filter_eq fd1 ''day_of_week'' (Some (Str ''Mon'')) = Inr fd2
     \<and> day_options v = Some [Str ''Mon'', Str ''Tue'']
     \<and> getitem fd1 ''day_of_week'' = Inr dcol \<and> offered [Str ''Mon'', Str ''Tue''] dcol
     \<and> hour_options v = Some [Num 8]
     \<and> getitem fd2 ''hour'' = Inr hcol \<and> offered [Num 8] hcol"
proof -
  obtain v where v: "sidebar demo_controls demo = Inr v"
    using demo_sidebar by blast
  have f: "month_options v = [Num 6, Num 7]" "month v = Some (Num 6)"
    "day_options v = Some [Str ''Mon'', Str ''Tue'']" "day_of_week v = Some (Str ''Mon'')"
    "hour_options v = Some [Num 8]"
    using v unfolding demo_sidebar by auto
  have c: "filter_by_day demo_controls" "filter_by_hour demo_controls"
    by (simp_all add: demo_controls_def)
  obtain mcol fd1 fd2 where m: "getitem demo ''month'' = Inr mcol" "offered [Num 6, Num 7] mcol"
    and f1: "filter_eq demo ''month'' (Some (Num 6)) = Inr fd1"
    and d: "filter_eq fd1 ''day_of_week'' (Some (Str ''Mon'')) = Inr fd2
        \<and> (\<exists>dcol. getitem fd1 ''day_of_week'' = Inr dcol \<and> offered [Str ''Mon'', Str ''Tue''] dcol)"
    and h: "\<exists>hcol. getitem fd2 ''hour'' = Inr hcol \<and> offered [Num 8] hcol"
    using options_follow_the_filters [OF v] unfolding f by (simp add: c) blast
  obtain dcol where dc: "getitem fd1 ''day_of_week'' = Inr dcol" "offered [Str ''Mon'', Str ''Tue''] dcol"
    using d by blast
  obtain hcol where hc: "getitem fd2 ''hour'' = Inr hcol" "offered [Num 8] hcol"
    using h by blast
  from d have f2: "filter_eq fd1 ''day_of_week'' (Some (Str ''Mon'')) = Inr fd2" by simp
  show ?thesis
    by (intro exI conjI) (rule v m f f1 f2 dc hc)+
qed

text \<open>
  C10. Whenever the sidebar returns, the month options are distinct values that occur
  in the month column, and the view holds no row with a missing month, nor, when the
  day-of-week or the hour filter is active, a row with that value missing.
\<close>

theorem missing_values_never_in_view:
  assumes "sidebar ui base = Inr v"
  shows "(\<exists>mcol. getitem base ''month'' = Inr mcol \<and> distinct (month_options v)
            \<and> list_all (\<lambda>v. Some v \<in> set mcol) (month_options v))
     \<and> (\<exists>col. getitem (filtered_data v) ''month'' = Inr col \<and> None \<notin> set col)
     \<and> (filter_by_day ui \<longrightarrow>
          (\<exists>col. getitem (filtered_data v) ''day_of_week'' = Inr col \<and> None \<notin> set col))
     \<and> (filter_by_hour ui \<longrightarrow>
          (\<exists>col. getitem (filtered_data v) ''hour'' = Inr col \<and> None \<notin> set col))"
proof -
  obtain fd1 fd2 where mo: "options base ''month'' = Inr (month_options v)"
    and f1: "filter_eq base ''month'' (month v) = Inr fd1"
    and dd: "if filter_by_day ui
         then \<exists>dopts. options fd1 ''day_of_week'' = Inr dopts \<and> day_options v = Some dopts
              \<and> day_of_week v = selectbox dopts (day_pick ui)
              \<and> filter_eq fd1 ''day_of_week'' (day_of_week v) = Inr fd2
         else day_options v = None \<and> day_of_week v = None \<and> fd2 = fd1"
    and hh: "if filter_by_hour ui
         then \<exists>hopts. options fd2 ''hour'' = Inr hopts \<and> hour_options v = Some hopts
              \<and> hour v = selectbox hopts (hour_pick ui)
              \<and> filter_eq fd2 ''hour'' (hour v) = Inr (filtered_data v)
         else hour_options v = None \<and> hour v = None \<and> filtered_data v = fd2"
    using sidebar_Inr [OF assms] by blast
  obtain mcol where "getitem base ''month'' = Inr mcol" "offered (month_options v) mcol"
    using options_offered [OF mo] by blast
  then have o: "\<exists>mcol. getitem base ''month'' = Inr mcol \<and> distinct (month_options v)
            \<and> list_all (\<lambda>v. Some v \<in> set mcol) (month_options v)"
    by (auto simp: offered_def)
  have m1: "\<exists>col. getitem fd1 ''month'' = Inr col \<and> None \<notin> set col"
    by (rule filter_eq_drops_missing [OF f1])
  have m2: "\<exists>col. getitem fd2 ''month'' = Inr col \<and> None \<notin> set col"
    using dd m1 by (auto split: if_splits dest: filter_eq_keeps_free_of_missing)
  have d2: "filter_by_day ui \<longrightarrow> (\<exists>col. getitem fd2 ''day_of_week'' = Inr col \<and> None \<notin> set col)"
    using dd by (auto split: if_splits dest: filter_eq_drops_missing)
  have m3: "\<exists>col. getitem (filtered_data v) ''month'' = Inr col \<and> None \<notin> set col"
    using hh m2 by (auto split: if_splits dest: filter_eq_keeps_free_of_missing)
  have d3: "filter_by_day ui \<longrightarrow>
      (\<exists>col. getitem (filtered_data v) ''day_of_week'' = Inr col \<and> None \<notin> set col)"
    using hh d2 by (auto split: if_splits dest: filter_eq_keeps_free_of_missing)
  have h3: "filter_by_hour ui \<longrightarrow>
      (\<exists>col. getitem (filtered_data v) ''hour'' = Inr col \<and> None \<notin> set col)"
    using hh by (auto split: if_splits dest: filter_eq_drops_missing)
  show ?thesis using o m3 d3 h3 by blast
qed

theorem missing_values_never_in_view_witness:
  "\<exists>v mcol col dcol hcol. sidebar demo_controls demo = Inr v
     \<and> getitem demo ''month'' = Inr mcol \<and> None \<in> set mcol
     \<and> distinct (month_options v) \<and> list_all (\<lambda>v. Some v \<in> set mcol) (month_options v)
     \<and> getitem (filtered_data v) ''month'' = Inr col \<and> None \<notin> set col
     \<and> getitem (filtered_data v) ''day_of_week'' = Inr dcol \<and> None \<notin> set dcol
     \<and> getitem (filtered_data v) ''hour'' = Inr hcol \<and> None \<notin> set hcol"
proof -
  obtain v where v: "sidebar demo_controls demo = Inr v"
    using demo_sidebar by blast
  have c: "filter_by_day demo_controls" "filter_by_hour demo_controls"
    by (simp_all add: demo_controls_def)
  have m: "getitem demo ''month'' = Inr [Some (Num 6), Some (Num 6), None, Some (Num 7)]"
    by (simp add: demo_def getitem_def)
  show ?thesis
    using v missing_values_never_in_view [OF v] c m by auto
qed

section \<open>Loading\<close>

text \<open>
  C4, as stated, fails: a file that lacks the month column loads without error, and
  the script fails later, with KeyError at the month select box.
\<close>

theorem load_checks_no_columns_counterexample:
  "''month'' \<notin> set (column_names [(''hour'', [Some (Num 8)])])
   \<and> load_data (\<lambda>p. Inr [(''hour'', [Some (Num 8)])]) = Inr [(''hour'', [Some (Num 8)])]
   \<and> app (\<lambda>p. Inr [(''hour'', [Some (Num 8)])]) (\<lambda>s. None) demo_controls = Inl (KeyError ''month'')"
  by (simp add: column_names_def load_data_def app_def sidebar_def options_def getitem_def)

text \<open>
  C4, amended. \<^verbatim>\<open>load_data\<close> returns what the reader returns for the fixed path: an
  error of the reader ends the script with that error, and a frame is returned with
  whatever columns it has. A frame without the month column makes the script fail
  after loading with KeyError for month; a frame without truth or predictions, or
  without the column of an active day-of-week or hour filter, makes the script fail
  after loading.
\<close>

theorem load_returns_what_the_reader_returns:
  "load_data read_csv = read_csv data_path
   \<and> (\<forall>e. read_csv data_path = Inl e \<longrightarrow> app read_csv parse ui = Inl e)
   \<and> (\<forall>t. read_csv data_path = Inr t \<longrightarrow>
        (''month'' \<notin> set (column_names t) \<longrightarrow> app read_csv parse ui = Inl (KeyError ''month''))
      \<and> (''truth'' \<notin> set (column_names t) \<or> ''predictions'' \<notin> set (column_names t)
           \<or> (filter_by_day ui \<and> ''day_of_week'' \<notin> set (column_names t))
           \<or> (filter_by_hour ui \<and> ''hour'' \<notin> set (column_names t))
         \<longrightarrow> (\<exists>e. app read_csv parse ui = Inl e)))"
proof (intro conjI allI impI)
  show "load_data read_csv = read_csv data_path" by (simp add: load_data_def)
next
  fix e assume "read_csv data_path = Inl e"
  then show "app read_csv parse ui = Inl e" by (simp add: app_def load_data_def)
next
  fix t assume r: "read_csv data_path = Inr t" and m: "''month'' \<notin> set (column_names t)"
  have "getitem t ''month'' = Inl (KeyError ''month'')"
    using m by (simp add: getitem_Inl_iff)
  then show "app read_csv parse ui = Inl (KeyError ''month'')"
    using r by (simp add: app_def load_data_def sidebar_def options_def)
next
  fix t assume r: "read_csv data_path = Inr t"
    and miss: "''truth'' \<notin> set (column_names t) \<or> ''predictions'' \<notin> set (column_names t)
           \<or> (filter_by_day ui \<and> ''day_of_week'' \<notin> set (column_names t))
           \<or> (filter_by_hour ui \<and> ''hour'' \<notin> set (column_names t))"
  show "\<exists>e. app read_csv parse ui = Inl e"
  proof (cases "app read_csv parse ui")
    case (Inl e)
    then show ?thesis by blast
  next
    case (Inr s)
    from app_needs_columns [OF Inr r] miss show ?thesis by blast
  qed
qed

theorem load_returns_what_the_reader_returns_witness:
  "load_data (\<lambda>p. Inl FileNotFoundError) = Inl FileNotFoundError
   \<and> app (\<lambda>p. Inl FileNotFoundError) (\<lambda>s. None) demo_controls = Inl FileNotFoundError
   \<and> load_data (\<lambda>p. Inr [(''month'', [Some (Num 6)])]) = Inr [(''month'', [Some (Num 6)])]
   \<and> (\<exists>e. app (\<lambda>p. Inr [(''month'', [Some (Num 6)])]) (\<lambda>s. None) demo_controls = Inl e)"
proof -
  have a: "load_data (\<lambda>p. Inl FileNotFoundError) = Inl FileNotFoundError
      \<and> app (\<lambda>p. Inl FileNotFoundError) (\<lambda>s. None) demo_controls = Inl FileNotFoundError"
    using load_returns_what_the_reader_returns [of "\<lambda>p. Inl FileNotFoundError" "\<lambda>s. None" demo_controls]
    by simp
  have b: "load_data (\<lambda>p. Inr [(''month'', [Some (Num 6)])]) = Inr [(''month'', [Some (Num 6)])]
      \<and> (\<exists>e. app (\<lambda>p. Inr [(''month'', [Some (Num 6)])]) (\<lambda>s. None) demo_controls = Inl e)"
    using load_returns_what_the_reader_returns
      [of "\<lambda>p. Inr [(''month'', [Some (Num 6)])]" "\<lambda>s. None" demo_controls]
    by (simp add: column_names_def)
  from a b show ?thesis by simp
qed

end
